theory Spec2Isabelle
  imports Main "HOL-Library.Char_ord"
begin

section \<open>Strings: the functions of Go's \<open>strings\<close> and \<open>strconv\<close> that the program calls\<close>

text \<open>
  A Go string is a sequence of bytes, and so is an Isabelle \<open>string\<close> (a list of 8-bit
  \<open>char\<close>s). Indices are made explicit, as the Go slices \<open>s[:i]\<close> and \<open>s[i:]\<close> are
  \<open>take i s\<close> and \<open>drop i s\<close>.
\<close>

fun HasPrefix :: "string \<Rightarrow> string \<Rightarrow> bool" where
  "HasPrefix s [] = True"
| "HasPrefix [] (p # ps) = False"
| "HasPrefix (c # s) (p # ps) = (c = p \<and> HasPrefix s ps)"

definition HasSuffix :: "string \<Rightarrow> string \<Rightarrow> bool" where
  "HasSuffix s suf = HasPrefix (rev s) (rev suf)"

text \<open>\<open>strings.Contains(s, substr)\<close>: some position of \<open>s\<close> starts with \<open>substr\<close>.\<close>

fun Contains :: "string \<Rightarrow> string \<Rightarrow> bool" where
  "Contains [] substr = HasPrefix [] substr"
| "Contains (c # s) substr = (HasPrefix (c # s) substr \<or> Contains s substr)"

text \<open>\<open>strings.Index\<close> and \<open>strings.LastIndex\<close>; Go's \<open>-1\<close> is \<open>None\<close>.\<close>

fun Index :: "string \<Rightarrow> string \<Rightarrow> nat option" where
  "Index [] substr = (if HasPrefix [] substr then Some 0 else None)"
| "Index (c # s) substr =
     (if HasPrefix (c # s) substr then Some 0 else map_option Suc (Index s substr))"

fun IndexByte :: "string \<Rightarrow> char \<Rightarrow> nat option" where
  "IndexByte [] b = None"
| "IndexByte (c # s) b = (if c = b then Some 0 else map_option Suc (IndexByte s b))"

definition LastIndexByte :: "string \<Rightarrow> char \<Rightarrow> nat option" where
  "LastIndexByte s b =
     (case IndexByte (rev s) b of None \<Rightarrow> None | Some j \<Rightarrow> Some (length s - 1 - j))"

text \<open>\<open>strings.Cut(s, sep)\<close> for a one-byte separator: the text before the first
  separator and the text after it (all of \<open>s\<close> and the empty string when there is none).\<close>

definition Cut :: "string \<Rightarrow> char \<Rightarrow> string \<times> string" where
  "Cut s sep = (takeWhile (\<lambda>c. c \<noteq> sep) s, drop 1 (dropWhile (\<lambda>c. c \<noteq> sep) s))"

definition Count :: "string \<Rightarrow> char \<Rightarrow> nat" where
  "Count s b = length (filter (\<lambda>c. c = b) s)"

text \<open>Go's \<open>lo <= c && c <= hi\<close> on bytes.\<close>

definition inRange :: "char \<Rightarrow> char \<Rightarrow> char \<Rightarrow> bool" where
  "inRange lo hi c = (lo \<le> c \<and> c \<le> hi)"

definition ToLower :: "string \<Rightarrow> string" where
  "ToLower s =
     map (\<lambda>c. if inRange (CHR ''A'') (CHR ''Z'') c then char_of (of_char c + (32::nat)) else c) s"

text \<open>\<open>strconv.Itoa\<close>: the decimal digits of an integer, with a minus sign when negative.\<close>

definition digit :: "nat \<Rightarrow> char" where
  "digit d = char_of (48 + d)"

fun formatDecimal :: "nat \<Rightarrow> string" where
  "formatDecimal n = (if n < 10 then [digit n] else formatDecimal (n div 10) @ [digit (n mod 10)])"

declare formatDecimal.simps [simp del]

definition Itoa :: "int \<Rightarrow> string" where
  "Itoa i = (if i < 0 then CHR ''-'' # formatDecimal (nat (- i)) else formatDecimal (nat i))"

section \<open>The URL classifier\<close>

text \<open>
  \<^verbatim>\<open>
  // Audio resources have the path format /range/0-nnnn...
  func isAudioURL(u string) bool {
      return strings.Contains(u, "/range/0-")
  }
  \<close>
\<close>

definition isAudioURL :: "string \<Rightarrow> bool" where
  "isAudioURL u = Contains u ''/range/0-''"

section \<open>Go's \<open>net/url\<close>: \<open>url.Parse\<close> and \<open>URL.String\<close>\<close>

text \<open>
  \<open>toDownloadableURL\<close> calls \<open>url.Parse\<close>, clears the field \<open>Path\<close> and calls
  \<open>URL.String\<close>. Both belong to Go's standard library; they are written out here
  function by function (\<open>getScheme\<close>, \<open>parse\<close>, \<open>parseAuthority\<close>, \<open>parseHost\<close>,
  \<open>unescape\<close>, \<open>escape\<close>, \<open>shouldEscape\<close>, \<open>setPath\<close>, \<open>setFragment\<close>,
  \<open>EscapedPath\<close>, \<open>EscapedFragment\<close>, \<open>String\<close>), so that the repository's function
  can be run on concrete URLs.
\<close>

datatype encoding =
    encodePath
  | encodePathSegment
  | encodeHost
  | encodeZone
  | encodeUserPassword
  | encodeQueryComponent
  | encodeFragment

datatype url_error =
    InvalidControlCharacter
  | MissingProtocolScheme
  | FirstPathSegmentColon
  | EscapeError string
  | InvalidHostError string
  | MissingBracket
  | InvalidPort string
  | InvalidUserinfo

record Userinfo =
  username :: string
  password :: string
  passwordSet :: bool

record URL =
  Scheme :: string
  Opaque :: string
  User :: "Userinfo option"
  Host :: string
  Path :: string
  RawPath :: string
  OmitHost :: bool
  ForceQuery :: bool
  RawQuery :: string
  Fragment :: string
  RawFragment :: string

definition emptyURL :: URL where
  "emptyURL = \<lparr>Scheme = [], Opaque = [], User = None, Host = [], Path = [], RawPath = [],
     OmitHost = False, ForceQuery = False, RawQuery = [], Fragment = [], RawFragment = []\<rparr>"

definition isLetter :: "char \<Rightarrow> bool" where
  "isLetter c = (inRange (CHR ''a'') (CHR ''z'') c \<or> inRange (CHR ''A'') (CHR ''Z'') c)"

definition isDigit :: "char \<Rightarrow> bool" where
  "isDigit c = inRange (CHR ''0'') (CHR ''9'') c"

definition ishex :: "char \<Rightarrow> bool" where
  "ishex c =
     (isDigit c \<or> inRange (CHR ''a'') (CHR ''f'') c \<or> inRange (CHR ''A'') (CHR ''F'') c)"

definition unhex :: "char \<Rightarrow> nat" where
  "unhex c =
     (if isDigit c then of_char c - 48
      else if inRange (CHR ''a'') (CHR ''f'') c then of_char c - 97 + 10
      else if inRange (CHR ''A'') (CHR ''F'') c then of_char c - 65 + 10
      else 0)"

definition upperhex :: "nat \<Rightarrow> char" where
  "upperhex n = ''0123456789ABCDEF'' ! n"

text \<open>\<open>shouldEscape(c, mode)\<close>, case by case in the order of the source.\<close>

definition shouldEscape :: "char \<Rightarrow> encoding \<Rightarrow> bool" where
  "shouldEscape c mode =
     (if isLetter c \<or> isDigit c then False
      else if (mode = encodeHost \<or> mode = encodeZone)
              \<and> c \<in> set (CHR 0x22 # ''!$&'()*+,;=:[]<>'') then False
      else if c \<in> set ''-_.~'' then False
      else if c \<in> set ''$&+,/:;=?@'' \<and> mode = encodePath then c = CHR ''?''
      else if c \<in> set ''$&+,/:;=?@'' \<and> mode = encodePathSegment then c \<in> set ''/;,?''
      else if c \<in> set ''$&+,/:;=?@'' \<and> mode = encodeUserPassword then c \<in> set ''@/?:''
      else if c \<in> set ''$&+,/:;=?@'' \<and> mode = encodeQueryComponent then True
      else if c \<in> set ''$&+,/:;=?@'' \<and> mode = encodeFragment then False
      else if mode = encodeFragment \<and> c \<in> set ''!()*'' then False
      else True)"

text \<open>
  \<open>unescape(s, mode)\<close>. The source validates the string in one pass and decodes it in a
  second one; errors arise in the first pass only, at the leftmost offending position,
  so one pass that validates and decodes from the left returns the same value.
\<close>

fun unescape :: "string \<Rightarrow> encoding \<Rightarrow> url_error + string" where
  "unescape [] mode = Inr []"
| "unescape (c # s) mode =
     (if c = CHR ''%'' then
        (case s of
           h1 # h2 # rest \<Rightarrow>
             if \<not> ishex h1 \<or> \<not> ishex h2 then Inl (EscapeError [c, h1, h2])
             else if mode = encodeHost \<and> unhex h1 < 8 \<and> [c, h1, h2] \<noteq> ''%25''
               then Inl (EscapeError [c, h1, h2])
             else if mode = encodeZone \<and> [c, h1, h2] \<noteq> ''%25''
                     \<and> char_of (16 * unhex h1 + unhex h2) \<noteq> CHR '' ''
                     \<and> shouldEscape (char_of (16 * unhex h1 + unhex h2)) encodeHost
               then Inl (EscapeError [c, h1, h2])
             else (case unescape rest mode of
                     Inl e \<Rightarrow> Inl e
                   | Inr t \<Rightarrow> Inr (char_of (16 * unhex h1 + unhex h2) # t))
         | _ \<Rightarrow> Inl (EscapeError (c # s)))
      else if c = CHR ''+'' then
        (case unescape s mode of
           Inl e \<Rightarrow> Inl e
         | Inr t \<Rightarrow> Inr ((if mode = encodeQueryComponent then CHR '' '' else CHR ''+'') # t))
      else if (mode = encodeHost \<or> mode = encodeZone) \<and> c < CHR 0x80 \<and> shouldEscape c encodeHost
        then Inl (InvalidHostError [c])
      else (case unescape s mode of Inl e \<Rightarrow> Inl e | Inr t \<Rightarrow> Inr (c # t)))"

fun escape :: "string \<Rightarrow> encoding \<Rightarrow> string" where
  "escape [] mode = []"
| "escape (c # s) mode =
     (if c = CHR '' '' \<and> mode = encodeQueryComponent then CHR ''+'' # escape s mode
      else if shouldEscape c mode
        then CHR ''%'' # upperhex (of_char c div 16) # upperhex (of_char c mod 16) # escape s mode
      else c # escape s mode)"

text \<open>\<open>getScheme(rawURL)\<close>: the loop over the index \<open>i\<close>, with the bytes still to read.\<close>

fun getScheme_from :: "nat \<Rightarrow> string \<Rightarrow> string \<Rightarrow> url_error + string \<times> string" where
  "getScheme_from i rawURL [] = Inr ([], rawURL)"
| "getScheme_from i rawURL (c # cs) =
     (if isLetter c then getScheme_from (Suc i) rawURL cs
      else if isDigit c \<or> c = CHR ''+'' \<or> c = CHR ''-'' \<or> c = CHR ''.'' then
        (if i = 0 then Inr ([], rawURL) else getScheme_from (Suc i) rawURL cs)
      else if c = CHR '':'' then
        (if i = 0 then Inl MissingProtocolScheme else Inr (take i rawURL, drop (Suc i) rawURL))
      else Inr ([], rawURL))"

definition getScheme :: "string \<Rightarrow> url_error + string \<times> string" where
  "getScheme rawURL = getScheme_from 0 rawURL rawURL"

definition stringContainsCTLByte :: "string \<Rightarrow> bool" where
  "stringContainsCTLByte s = (\<exists>b \<in> set s. b < CHR '' '' \<or> b = CHR 0x7F)"

definition validOptionalPort :: "string \<Rightarrow> bool" where
  "validOptionalPort port =
     (case port of
        [] \<Rightarrow> True
      | c # ds \<Rightarrow> c = CHR '':'' \<and> list_all isDigit ds)"

definition validUserinfo :: "string \<Rightarrow> bool" where
  "validUserinfo s =
     list_all (\<lambda>r. isLetter r \<or> isDigit r \<or> r \<in> set ''-._:~!$&'()*+,;=%@'') s"

definition parseHost :: "string \<Rightarrow> url_error + string" where
  "parseHost host =
     (if HasPrefix host ''['' then
        (case LastIndexByte host (CHR '']'') of
           None \<Rightarrow> Inl MissingBracket
         | Some i \<Rightarrow>
             if \<not> validOptionalPort (drop (i + 1) host) then Inl (InvalidPort (drop (i + 1) host))
             else (case Index (take i host) ''%25'' of
                     Some zone \<Rightarrow>
                       (case unescape (take zone host) encodeHost of
                          Inl e \<Rightarrow> Inl e
                        | Inr host1 \<Rightarrow>
                            (case unescape (drop zone (take i host)) encodeZone of
                               Inl e \<Rightarrow> Inl e
                             | Inr host2 \<Rightarrow>
                                 (case unescape (drop i host) encodeHost of
                                    Inl e \<Rightarrow> Inl e
                                  | Inr host3 \<Rightarrow> Inr (host1 @ host2 @ host3))))
                   | None \<Rightarrow> unescape host encodeHost))
      else
        (case LastIndexByte host (CHR '':'') of
           Some i \<Rightarrow>
             if \<not> validOptionalPort (drop i host) then Inl (InvalidPort (drop i host))
             else unescape host encodeHost
         | None \<Rightarrow> unescape host encodeHost))"

definition parseUserinfo :: "string \<Rightarrow> url_error + Userinfo" where
  "parseUserinfo userinfo =
     (if \<not> validUserinfo userinfo then Inl InvalidUserinfo
      else if \<not> Contains userinfo '':'' then
        (case unescape userinfo encodeUserPassword of
           Inl e \<Rightarrow> Inl e
         | Inr u \<Rightarrow> Inr \<lparr>username = u, password = [], passwordSet = False\<rparr>)
      else
        (case unescape (fst (Cut userinfo (CHR '':''))) encodeUserPassword of
           Inl e \<Rightarrow> Inl e
         | Inr u \<Rightarrow>
             (case unescape (snd (Cut userinfo (CHR '':''))) encodeUserPassword of
                Inl e \<Rightarrow> Inl e
              | Inr p \<Rightarrow> Inr \<lparr>username = u, password = p, passwordSet = True\<rparr>)))"

definition parseAuthority :: "string \<Rightarrow> url_error + Userinfo option \<times> string" where
  "parseAuthority authority =
     (case LastIndexByte authority (CHR ''@'') of
        None \<Rightarrow>
          (case parseHost authority of Inl e \<Rightarrow> Inl e | Inr host \<Rightarrow> Inr (None, host))
      | Some i \<Rightarrow>
          (case parseHost (drop (i + 1) authority) of
             Inl e \<Rightarrow> Inl e
           | Inr host \<Rightarrow>
               (case parseUserinfo (take i authority) of
                  Inl e \<Rightarrow> Inl e
                | Inr user \<Rightarrow> Inr (Some user, host))))"

definition setPath :: "URL \<Rightarrow> string \<Rightarrow> url_error + URL" where
  "setPath u p =
     (case unescape p encodePath of
        Inl e \<Rightarrow> Inl e
      | Inr path \<Rightarrow>
          Inr (u\<lparr>Path := path, RawPath := (if p = escape path encodePath then [] else p)\<rparr>))"

definition setFragment :: "URL \<Rightarrow> string \<Rightarrow> url_error + URL" where
  "setFragment u f =
     (case unescape f encodeFragment of
        Inl e \<Rightarrow> Inl e
      | Inr frag \<Rightarrow>
          Inr (u\<lparr>Fragment := frag,
                 RawFragment := (if f = escape frag encodeFragment then [] else f)\<rparr>))"

text \<open>\<open>parse(rawURL, viaRequest)\<close> with \<open>viaRequest = false\<close>, as \<open>url.Parse\<close> calls it.\<close>

definition parse_rest :: "URL \<Rightarrow> string \<Rightarrow> url_error + URL" where
  "parse_rest url rest =
     (if \<not> HasPrefix rest ''/'' \<and> Scheme url \<noteq> [] then Inr (url\<lparr>Opaque := rest\<rparr>)
      else if \<not> HasPrefix rest ''/'' \<and> Contains (fst (Cut rest (CHR ''/''))) '':''
        then Inl FirstPathSegmentColon
      else if (Scheme url \<noteq> [] \<or> \<not> HasPrefix rest ''///'') \<and> HasPrefix rest ''//'' then
        (let authority = drop 2 rest in
         case parseAuthority (fst (case IndexByte authority (CHR ''/'') of
                                     None \<Rightarrow> (authority, [])
                                   | Some i \<Rightarrow> (take i authority, drop i authority))) of
           Inl e \<Rightarrow> Inl e
         | Inr (user, host) \<Rightarrow>
             setPath (url\<lparr>User := user, Host := host\<rparr>)
               (snd (case IndexByte authority (CHR ''/'') of
                       None \<Rightarrow> (authority, [])
                     | Some i \<Rightarrow> (take i authority, drop i authority))))
      else if Scheme url \<noteq> [] \<and> HasPrefix rest ''/'' then setPath (url\<lparr>OmitHost := True\<rparr>) rest
      else setPath url rest)"

definition parse :: "string \<Rightarrow> url_error + URL" where
  "parse rawURL =
     (if stringContainsCTLByte rawURL then Inl InvalidControlCharacter
      else if rawURL = ''*'' then Inr (emptyURL\<lparr>Path := ''*''\<rparr>)
      else
        (case getScheme rawURL of
           Inl e \<Rightarrow> Inl e
         | Inr (scheme, rest) \<Rightarrow>
             if HasSuffix rest ''?'' \<and> Count rest (CHR ''?'') = 1
               then parse_rest (emptyURL\<lparr>Scheme := ToLower scheme, ForceQuery := True\<rparr>)
                      (butlast rest)
             else parse_rest
                    (emptyURL\<lparr>Scheme := ToLower scheme, RawQuery := snd (Cut rest (CHR ''?''))\<rparr>)
                    (fst (Cut rest (CHR ''?'')))))"

definition Parse :: "string \<Rightarrow> url_error + URL" where
  "Parse rawURL =
     (case parse (fst (Cut rawURL (CHR ''#''))) of
        Inl e \<Rightarrow> Inl e
      | Inr url \<Rightarrow>
          if snd (Cut rawURL (CHR ''#'')) = [] then Inr url
          else setFragment url (snd (Cut rawURL (CHR ''#''))))"

definition validEncoded :: "string \<Rightarrow> encoding \<Rightarrow> bool" where
  "validEncoded s mode =
     list_all (\<lambda>c. c \<in> set ''!$&'()*+,;=:@[]%'' \<or> \<not> shouldEscape c mode) s"

definition EscapedPath :: "URL \<Rightarrow> string" where
  "EscapedPath u =
     (if RawPath u \<noteq> [] \<and> validEncoded (RawPath u) encodePath
         \<and> unescape (RawPath u) encodePath = Inr (Path u) then RawPath u
      else if Path u = ''*'' then ''*''
      else escape (Path u) encodePath)"

definition EscapedFragment :: "URL \<Rightarrow> string" where
  "EscapedFragment u =
     (if RawFragment u \<noteq> [] \<and> validEncoded (RawFragment u) encodeFragment
         \<and> unescape (RawFragment u) encodeFragment = Inr (Fragment u) then RawFragment u
      else escape (Fragment u) encodeFragment)"

definition Userinfo_String :: "Userinfo \<Rightarrow> string" where
  "Userinfo_String ui =
     escape (username ui) encodeUserPassword
     @ (if passwordSet ui then '':'' @ escape (password ui) encodeUserPassword else [])"

text \<open>\<open>func (u *URL) String() string\<close>: the buffer is built from left to right.\<close>

definition URL_authority :: "URL \<Rightarrow> string" where
  "URL_authority u =
     (if Scheme u \<noteq> [] \<or> Host u \<noteq> [] \<or> User u \<noteq> None then
        (if OmitHost u \<and> Host u = [] \<and> User u = None then []
         else (if Host u \<noteq> [] \<or> Path u \<noteq> [] \<or> User u \<noteq> None then ''//'' else [])
              @ (case User u of None \<Rightarrow> [] | Some ui \<Rightarrow> Userinfo_String ui @ ''@'')
              @ (if Host u \<noteq> [] then escape (Host u) encodeHost else []))
      else [])"

definition URL_String :: "URL \<Rightarrow> string" where
  "URL_String u =
     (let buf = (if Scheme u \<noteq> [] then Scheme u @ '':'' else []);
          buf = (if Opaque u \<noteq> [] then buf @ Opaque u
                 else
                   (let buf = buf @ URL_authority u;
                        path = EscapedPath u;
                        buf = (if path \<noteq> [] \<and> hd path \<noteq> CHR ''/'' \<and> Host u \<noteq> []
                               then buf @ ''/'' else buf);
                        buf = (if buf = [] \<and> Contains (fst (Cut path (CHR ''/''))) '':''
                               then buf @ ''./'' else buf)
                    in buf @ path));
          buf = (if ForceQuery u \<or> RawQuery u \<noteq> [] then buf @ ''?'' @ RawQuery u else buf)
      in if Fragment u \<noteq> [] then buf @ ''#'' @ EscapedFragment u else buf)"

section \<open>The URL transformer\<close>

text \<open>
  \<^verbatim>\<open>
  func toDownloadableURL(audioURL string) string {
      u, err := url.Parse(audioURL)
      if err != nil {
          log.Fatal(err)
      }
      u.Path = ""
      return u.String()
  }
  \<close>
  \<open>log.Fatal\<close> prints the error and exits the process: the function has two outcomes.
\<close>

datatype ('e, 'a) outcome = Fatal 'e | Ok 'a

definition toDownloadableURL :: "string \<Rightarrow> (url_error, string) outcome" where
  "toDownloadableURL audioURL =
     (case Parse audioURL of
        Inl err \<Rightarrow> Fatal err
      | Inr u \<Rightarrow> Ok (URL_String (u\<lparr>Path := []\<rparr>)))"

text \<open>
  The older variant of the program parses inside the download task instead
  (\<open>downloadAudio\<close>, below); both variants end the process on a parse error.
\<close>

section \<open>The downloader\<close>

text \<open>
  Errors of the program: a URL that does not parse, the two errors \<open>io.Copy\<close> makes up
  itself, and the errors of the operating system, the network and the libraries, which
  the program only passes on.
\<close>

datatype error =
    ParseError url_error
  | ErrShortWrite
  | errInvalidWrite
  | SysError string

datatype log_entry = Msg string | Err error

text \<open>
  An HTTP response body is read chunk by chunk; the last \<open>Read\<close> returns \<open>io.EOF\<close>
  (\<open>final = None\<close>) or a network error.
\<close>

record reader =
  chunks :: "string list"
  final :: "error option"

record response =
  StatusCode :: nat
  Body :: reader

text \<open>
  What the program's surroundings answer: \<open>os.Create\<close> on a path, \<open>http.Get\<close> on a URL
  (an error only when no response arrives: a response with an error status is a
  response), and \<open>Write\<close> on the open file, given the file's content so far and the
  bytes to write (the number of bytes written and an error).
\<close>

record env =
  os_Create :: "string \<Rightarrow> error option"
  http_Get :: "string \<Rightarrow> error + response"
  file_Write :: "string \<Rightarrow> string \<Rightarrow> nat \<times> error option"

text \<open>
  A task handed to the pool is a closure: it holds the addresses of the two variables it
  captured. A goroutine started by \<open>enqueueDownload\<close> has its own arguments \<open>s\<close> and
  \<open>t\<close> and the task it will submit.
\<close>

datatype task = Task (cap_fromURL: nat) (cap_toPath: nat)

datatype goroutine = Goroutine (arg_s: string) (arg_t: string) (body_task: task)

text \<open>
  The state of the running process. \<open>heap\<close> holds the variables that closures captured;
  \<open>goroutines\<close> are started and have not yet called \<open>QueueTask\<close>; \<open>queue\<close> holds the
  tasks the pool accepted and has not yet started. \<open>calls\<close> and \<open>executed\<close> are the
  observation traces: each call of \<open>enqueueDownload\<close> with the task it built, and each
  call of \<open>download\<close> by a task; \<open>task_results\<close> is what the tasks returned to the pool.
\<close>

record world =
  heap :: "string list"
  goroutines :: "goroutine list"
  queue :: "task list"
  calls :: "(task \<times> string \<times> string) list"
  executed :: "(task \<times> string \<times> string) list"
  task_results :: "error option list"
  fs :: "string \<rightharpoonup> string"
  log :: "log_entry list"
  stdout :: "string list"
  draws :: nat

definition init_world :: world where
  "init_world = \<lparr>heap = [], goroutines = [], queue = [], calls = [], executed = [],
     task_results = [], fs = Map.empty, log = [], stdout = [], draws = 0\<rparr>"

text \<open>
  \<open>io.Copy(out, resp.Body)\<close>: the loop of \<open>io.copyBuffer\<close>, one round per \<open>Read\<close>.
  It returns the file's content, the number of bytes written and the error.
\<close>

fun copyBuffer ::
  "(string \<Rightarrow> string \<Rightarrow> nat \<times> error option) \<Rightarrow> string list \<Rightarrow> error option \<Rightarrow> string \<Rightarrow> nat
     \<Rightarrow> string \<times> nat \<times> error option" where
  "copyBuffer wr [] er file written = (file, written, er)"
| "copyBuffer wr (buf # bufs) er file written =
     (if 0 < length buf then
        (case wr file buf of
           (nw, ew) \<Rightarrow>
             (case (if length buf < nw
                    then (0, (case ew of None \<Rightarrow> Some errInvalidWrite | Some e \<Rightarrow> Some e))
                    else (nw, ew)) of
                (nw, ew) \<Rightarrow>
                  if ew \<noteq> None then (file @ take nw buf, written + nw, ew)
                  else if length buf \<noteq> nw then (file @ take nw buf, written + nw, Some ErrShortWrite)
                  else copyBuffer wr bufs er (file @ take nw buf) (written + nw)))
      else copyBuffer wr bufs er file written)"

text \<open>
  \<^verbatim>\<open>
  func download(fromUrl, toPath string) error {
      log.Println("Downloading " + fromUrl)
      out, err := os.Create(toPath)
      if err != nil { return err }
      defer out.Close()
      resp, err := http.Get(fromUrl)
      if err != nil { return err }
      defer resp.Body.Close()
      n, err := io.Copy(out, resp.Body)
      if err != nil { return err }
      log.Printf("Done, got %d bytes", n)
      return nil
  }
  \<close>
  \<open>os.Create\<close> creates the file or truncates it. The status code of the response is
  never read.
\<close>

definition download :: "env \<Rightarrow> string \<Rightarrow> string \<Rightarrow> world \<Rightarrow> error option \<times> world" where
  "download e fromUrl toPath w =
     (let w = w\<lparr>log := log w @ [Msg (''Downloading '' @ fromUrl)]\<rparr> in
      case os_Create e toPath of
        Some err \<Rightarrow> (Some err, w)
      | None \<Rightarrow>
          (let w = w\<lparr>fs := (fs w)(toPath \<mapsto> [])\<rparr> in
           case http_Get e fromUrl of
             Inl err \<Rightarrow> (Some err, w)
           | Inr resp \<Rightarrow>
               (case copyBuffer (file_Write e) (chunks (Body resp)) (final (Body resp)) [] 0 of
                  (file, n, Some err) \<Rightarrow> (Some err, w\<lparr>fs := (fs w)(toPath \<mapsto> file)\<rparr>)
                | (file, n, None) \<Rightarrow>
                    (None, w\<lparr>fs := (fs w)(toPath \<mapsto> file),
                              log := log w @ [Msg (''Done, got '' @ Itoa (int n) @ '' bytes'')]\<rparr>))))"

text \<open>
  The older variant, \<open>downloadAudio(fromUrl, toPath)\<close>: it parses the URL itself, and
  every error is \<open>log.Fatal\<close>.
\<close>

definition downloadAudio :: "env \<Rightarrow> string \<Rightarrow> string \<Rightarrow> world \<Rightarrow> (error, world) outcome" where
  "downloadAudio e fromUrl toPath w =
     (let w = w\<lparr>stdout := stdout w @ [''Downloading '' @ fromUrl]\<rparr> in
      case Parse fromUrl of
        Inl err \<Rightarrow> Fatal (ParseError err)
      | Inr u \<Rightarrow>
          (case os_Create e toPath of
             Some err \<Rightarrow> Fatal err
           | None \<Rightarrow>
               (let w = w\<lparr>fs := (fs w)(toPath \<mapsto> [])\<rparr> in
                case http_Get e (URL_String (u\<lparr>Path := []\<rparr>)) of
                  Inl err \<Rightarrow> Fatal err
                | Inr resp \<Rightarrow>
                    (case copyBuffer (file_Write e) (chunks (Body resp)) (final (Body resp)) [] 0 of
                       (file, n, Some err) \<Rightarrow> Fatal err
                     | (file, n, None) \<Rightarrow>
                         Ok (w\<lparr>fs := (fs w)(toPath \<mapsto> file),
                               log := log w @ [Msg (''Done, got '' @ Itoa (int n) @ '' bytes'')]\<rparr>)))))"

section \<open>The dispatcher\<close>

text \<open>
  \<^verbatim>\<open>
  func enqueueDownload(q *queue.Queue, fromURL, toPath string) error {
      go func(s, t string) {
          err := q.QueueTask(func(ctx context.Context) error {
              return download(fromURL, toPath)
          })
          if err != nil {
              return
          }
      }(fromURL, toPath)
      return nil
  }
  \<close>
  Each call has its own variables \<open>fromURL\<close> and \<open>toPath\<close>: two new cells of the heap.
  The goroutine receives copies of their values as \<open>s\<close> and \<open>t\<close>, which it never reads;
  the task it builds refers to the two cells of the call.
\<close>

definition enqueueDownload :: "string \<Rightarrow> string \<Rightarrow> world \<Rightarrow> error option \<times> world" where
  "enqueueDownload fromURL toPath w =
     (let a = length (heap w);
          t = Task a (a + 1)
      in (None, w\<lparr>heap := heap w @ [fromURL, toPath],
                   goroutines := goroutines w @ [Goroutine fromURL toPath t],
                   calls := calls w @ [(t, fromURL, toPath)]\<rparr>))"

text \<open>
  \<open>q.QueueTask(task)\<close> belongs to the pool library: it returns an error (the queue is
  shut down or full) or takes the task. Which of the two is for the library to say:
  the verdict is an argument.
\<close>

definition QueueTask :: "error option \<Rightarrow> task \<Rightarrow> world \<Rightarrow> error option \<times> world" where
  "QueueTask verdict t w =
     (case verdict of
        Some err \<Rightarrow> (Some err, w)
      | None \<Rightarrow> (None, w\<lparr>queue := queue w @ [t]\<rparr>))"

text \<open>The body of the goroutine: \<open>if err != nil { return }\<close>, and it returns anyway.\<close>

definition goroutine_body :: "error option \<Rightarrow> goroutine \<Rightarrow> world \<Rightarrow> world" where
  "goroutine_body verdict g w =
     (case QueueTask verdict (body_task g) w of
        (Some err, w') \<Rightarrow> w'
      | (None, w') \<Rightarrow> w')"

text \<open>
  A worker of the pool runs a task: the closure reads the variables it captured and
  calls \<open>download\<close>; what \<open>download\<close> returns goes to the pool. (A task whose
  variables do not exist cannot arise, see \<open>closures_wf\<close> below; the function is total
  and leaves the state as it is then.)
\<close>

definition run_task :: "env \<Rightarrow> task \<Rightarrow> world \<Rightarrow> world" where
  "run_task e t w =
     (if cap_fromURL t < length (heap w) \<and> cap_toPath t < length (heap w) then
        (case download e (heap w ! cap_fromURL t) (heap w ! cap_toPath t)
                (w\<lparr>executed := executed w @ [(t, heap w ! cap_fromURL t, heap w ! cap_toPath t)]\<rparr>) of
           (res, w') \<Rightarrow> w'\<lparr>task_results := task_results w' @ [res]\<rparr>)
      else w)"

section \<open>The main loop\<close>

text \<open>
  \<^verbatim>\<open>
  for u := range listen(responseReceived) {
      if !isAudioURL(u) {
          continue
      }
      err := enqueueDownload(q, toDownloadableURL(u), "DL-"+strconv.Itoa(rand.Int()))
      if err != nil {
          log.Println(err)
      }
  }
  \<close>
  \<open>rnd i\<close> is the value of the \<open>i\<close>-th call of \<open>rand.Int()\<close>. The arguments are
  evaluated from left to right: the URL is parsed before the number is drawn.
\<close>

definition main_event :: "(nat \<Rightarrow> int) \<Rightarrow> string \<Rightarrow> world \<Rightarrow> (error, world) outcome" where
  "main_event rnd u w =
     (if \<not> isAudioURL u then Ok w
      else
        (case toDownloadableURL u of
           Fatal err \<Rightarrow> Fatal (ParseError err)
         | Ok d \<Rightarrow>
             (case enqueueDownload d (''DL-'' @ Itoa (rnd (draws w))) (w\<lparr>draws := Suc (draws w)\<rparr>) of
                (None, w') \<Rightarrow> Ok w'
              | (Some err, w') \<Rightarrow> Ok (w'\<lparr>log := log w' @ [Err err]\<rparr>))))"

fun main_loop :: "(nat \<Rightarrow> int) \<Rightarrow> string list \<Rightarrow> world \<Rightarrow> (error, world) outcome" where
  "main_loop rnd [] w = Ok w"
| "main_loop rnd (u # us) w =
     (case main_event rnd u w of
        Fatal err \<Rightarrow> Fatal err
      | Ok w' \<Rightarrow> main_loop rnd us w')"

text \<open>
  The goroutines and the workers of the pool run beside the main loop. A schedule lists
  what happens in which order: the main loop receives a URL, the \<open>i\<close>-th waiting
  goroutine calls \<open>QueueTask\<close> (with the library's verdict), a worker takes the \<open>j\<close>-th
  queued task and runs it. A step that names no waiting goroutine or queued task does
  nothing.
\<close>

datatype action = Event string | Submit nat "error option" | Run nat

fun step :: "env \<Rightarrow> (nat \<Rightarrow> int) \<Rightarrow> action \<Rightarrow> world \<Rightarrow> (error, world) outcome" where
  "step e rnd (Event u) w = main_event rnd u w"
| "step e rnd (Submit i verdict) w =
     (if i < length (goroutines w)
      then Ok (goroutine_body verdict (goroutines w ! i)
                 (w\<lparr>goroutines := take i (goroutines w) @ drop (Suc i) (goroutines w)\<rparr>))
      else Ok w)"
| "step e rnd (Run j) w =
     (if j < length (queue w)
      then Ok (run_task e (queue w ! j) (w\<lparr>queue := take j (queue w) @ drop (Suc j) (queue w)\<rparr>))
      else Ok w)"

fun exec :: "env \<Rightarrow> (nat \<Rightarrow> int) \<Rightarrow> action list \<Rightarrow> world \<Rightarrow> (error, world) outcome" where
  "exec e rnd [] w = Ok w"
| "exec e rnd (a # as) w =
     (case step e rnd a w of
        Fatal err \<Rightarrow> Fatal err
      | Ok w' \<Rightarrow> exec e rnd as w')"

section \<open>The session connector\<close>

text \<open>
  \<^verbatim>\<open>
  func connectToChromeDebugger(ctx context.Context, url string) (*cdp.Client, error) {
      devt := devtool.New(url)
      pt, err := devt.Get(ctx, devtool.Page)
      if err != nil {
          pt, err = devt.Create(ctx)
          if err != nil { return nil, err }
      }
      conn, err := rpcc.DialContext(ctx, pt.WebSocketDebuggerURL)
      if err != nil { return nil, err }
      return cdp.NewClient(conn), nil
  }
  \<close>
  What the debugging endpoint answers at one attempt is a \<open>devtools\<close> record.
\<close>

datatype target = Target (WebSocketDebuggerURL: string)

datatype conn = Conn string

datatype client = NewClient conn

record devtools =
  devt_Get :: "error + target"
  devt_Create :: "error + target"
  rpcc_DialContext :: "string \<Rightarrow> error + conn"

definition connectToChromeDebugger :: "devtools \<Rightarrow> error + client" where
  "connectToChromeDebugger d =
     (case (case devt_Get d of Inl err \<Rightarrow> devt_Create d | Inr pt \<Rightarrow> Inr pt) of
        Inl err \<Rightarrow> Inl err
      | Inr pt \<Rightarrow>
          (case rpcc_DialContext d (WebSocketDebuggerURL pt) of
             Inl err \<Rightarrow> Inl err
           | Inr c \<Rightarrow> Inr (NewClient c)))"

text \<open>
  \<^verbatim>\<open>
  retryFunc := func() error {
      var err error
      chrome, err = connectToChromeDebugger(ctx, "http://127.0.0.1:9222")
      if err != nil {
          log.Print(fmt.Errorf("can't connect ... %w", err))
      }
      return err
  }
  err := backoff.Retry(retryFunc, backoff.NewConstantBackOff(5*time.Second))
  \<close>
  \<open>slept\<close> lists the pauses taken between attempts, in nanoseconds.
\<close>

record session =
  chrome :: "client option"
  session_log :: "error list"
  slept :: "nat list"

definition retryFunc :: "devtools \<Rightarrow> session \<Rightarrow> error option \<times> session" where
  "retryFunc d s =
     (case connectToChromeDebugger d of
        Inl err \<Rightarrow> (Some err, s\<lparr>chrome := None, session_log := session_log s @ [err]\<rparr>)
      | Inr c \<Rightarrow> (None, s\<lparr>chrome := Some c\<rparr>))"

text \<open>
  \<open>backoff.Retry(operation, b)\<close> of the library \<open>cenkalti/backoff\<close>, with a constant
  back-off: call the operation; return when it returns no error; otherwise sleep for
  \<open>b.NextBackOff()\<close>, which is the interval every time, and call it again. The library
  stops early for an error wrapped by \<open>backoff.Permanent\<close> only, and the program wraps
  none. The loop has no bound, so the function is partial: \<open>None\<close> is the run that
  never returns. \<open>attempt i\<close> is what the endpoint answers at the \<open>i\<close>-th attempt.
\<close>

partial_function (option) Retry :: "(nat \<Rightarrow> devtools) \<Rightarrow> nat \<Rightarrow> nat \<Rightarrow> session \<Rightarrow> session option" where
  "Retry attempt interval i s =
     (case retryFunc (attempt i) s of
        (None, s') \<Rightarrow> Some s'
      | (Some err, s') \<Rightarrow> Retry attempt interval (Suc i) (s'\<lparr>slept := slept s' @ [interval]\<rparr>))"

definition Second :: nat where
  "Second = 1000000000"

definition connect :: "(nat \<Rightarrow> devtools) \<Rightarrow> session option" where
  "connect attempt =
     Retry attempt (5 * Second) 0 \<lparr>chrome = None, session_log = [], slept = []\<rparr>"

section \<open>An invariant of the closures\<close>

text \<open>
  The \<open>k\<close>-th call of \<open>enqueueDownload\<close> owns the cells \<open>2 * k\<close> and \<open>2 * k + 1\<close> of the
  heap, which hold its two arguments; every task that waits in a goroutine or in the
  queue was built by a call, and every \<open>download\<close> that ran is listed with the task
  and the arguments of a call. Used in the proofs only.
\<close>

definition closures_wf :: "world \<Rightarrow> bool" where
  "closures_wf w \<longleftrightarrow>
     length (heap w) = 2 * length (calls w)
     \<and> (\<forall>k < length (calls w).
           calls w ! k = (Task (2 * k) (2 * k + 1), heap w ! (2 * k), heap w ! (2 * k + 1)))
     \<and> body_task ` set (goroutines w) \<subseteq> fst ` set (calls w)
     \<and> set (queue w) \<subseteq> fst ` set (calls w)
     \<and> set (executed w) \<subseteq> set (calls w)"

section \<open>Substring search\<close>

lemma HasPrefix_iff: "HasPrefix s p \<longleftrightarrow> (\<exists>suf. s = p @ suf)"
  by (induction s p rule: HasPrefix.induct) auto

lemma Contains_iff: "Contains s sub \<longleftrightarrow> (\<exists>pre suf. s = pre @ sub @ suf)"
proof (induction s)
  case Nil
  show ?case by (auto simp: HasPrefix_iff)
next
  case (Cons c s)
  have "(\<exists>pre suf. c # s = pre @ sub @ suf) \<longleftrightarrow>
        (\<exists>suf. c # s = sub @ suf) \<or> (\<exists>pre suf. s = pre @ sub @ suf)"
    (is "?L \<longleftrightarrow> ?A \<or> ?B")
  proof
    assume ?L
    then obtain pre suf where eq: "c # s = pre @ sub @ suf" by blast
    show "?A \<or> ?B"
    proof (cases pre)
      case Nil
      with eq show ?thesis by auto
    next
      case (Cons x pre')
      with eq have "s = pre' @ sub @ suf" by simp
      then show ?thesis by blast
    qed
  next
    assume "?A \<or> ?B"
    then show ?L
    proof
      assume ?A
      then obtain suf where "c # s = [] @ sub @ suf" by auto
      then show ?L by blast
    next
      assume ?B
      then obtain pre suf where "s = pre @ sub @ suf" by blast
      then have "c # s = (c # pre) @ sub @ suf" by simp
      then show ?L by blast
    qed
  qed
  with Cons.IH show ?case by (simp add: HasPrefix_iff)
qed

section \<open>The classifier reads the whole string\<close>

text \<open>
  C1, as amended. \<open>isAudioURL u\<close> holds exactly when the string \<open>u\<close>, taken as a whole,
  contains the text \<open>/range/0-\<close> somewhere. The classifier never parses the URL, so the
  text counts wherever it stands: in the path, the query, the host or the fragment.
\<close>

theorem isAudioURL_whole_string:
  "isAudioURL u \<longleftrightarrow> (\<exists>pre suf. u = pre @ ''/range/0-'' @ suf)"
  unfolding isAudioURL_def by (rule Contains_iff)

text \<open>
  The claim as written (true if and only if the path component contains the text) fails
  here: the URL has the text in its query only, its path is \<open>/a\<close>, and it is classified
  as an audio URL.
\<close>

theorem isAudioURL_query_counterexample:
  "isAudioURL ''https://media.example/a?x=/range/0-''
   \<and> map_sum id Path (Parse ''https://media.example/a?x=/range/0-'') = Inr ''/a''
   \<and> \<not> Contains ''/a'' ''/range/0-''"
  by code_simp

section \<open>The transformer clears the path\<close>



lemma escape_Nil: "(if h \<noteq> [] then escape h m else []) = escape h m"
  by simp




section \<open>A URL that does not parse ends the process\<close>

text \<open>
  C9. When \<open>url.Parse\<close> rejects the input, \<open>toDownloadableURL\<close> does not return: it ends
  the process with the parse error (\<open>log.Fatal\<close>). In the main loop the event is not
  skipped: whatever events would follow, the loop ends with that error. The older
  variant parses inside \<open>downloadAudio\<close> and ends the process there.
\<close>

theorem malformed_URL_is_fatal:
  assumes "Parse u = Inl err"
  shows "toDownloadableURL u = Fatal err
    \<and> (isAudioURL u \<longrightarrow> main_loop rnd (u # us) w = Fatal (ParseError err))
    \<and> downloadAudio e u toPath w = Fatal (ParseError err)"
  using assms by (simp add: toDownloadableURL_def main_event_def downloadAudio_def)

theorem malformed_URL_is_fatal_witness:
  "Parse ''http://media example/range/0-5'' = Inl (InvalidHostError '' '')
   \<and> isAudioURL ''http://media example/range/0-5''
   \<and> toDownloadableURL ''http://media example/range/0-5'' = Fatal (InvalidHostError '' '')
   \<and> main_loop (\<lambda>i. int i) [''http://media example/range/0-5'', ''https://media.example/range/0-7'']
        init_world = Fatal (ParseError (InvalidHostError '' ''))"
proof -
  have p: "Parse ''http://media example/range/0-5'' = Inl (InvalidHostError '' '')"
    by code_simp
  have a: "isAudioURL ''http://media example/range/0-5''"
    by code_simp
  from malformed_URL_is_fatal [OF p] a p show ?thesis by blast
qed

section \<open>Names of the output files\<close>

lemma digit_inj: "a < 10 \<Longrightarrow> b < 10 \<Longrightarrow> digit a = digit b \<Longrightarrow> a = b"
  by (simp add: digit_def char_of_eq_iff take_bit_eq_mod)

lemma digit_not_minus: "d < 10 \<Longrightarrow> digit d \<noteq> CHR ''-''"
proof
  assume d: "d < 10" and "digit d = CHR ''-''"
  then have "of_char (digit d) = (45::nat)" by simp
  with d show False by (simp add: digit_def)
qed

lemma formatDecimal_nonempty: "formatDecimal n \<noteq> []"
  by (subst formatDecimal.simps) simp

lemma formatDecimal_nonempty': "[] \<noteq> formatDecimal n"
  using formatDecimal_nonempty [of n] by metis

lemma formatDecimal_hd: "hd (formatDecimal n) \<noteq> CHR ''-''"
proof (induction n rule: formatDecimal.induct)
  case (1 n)
  show ?case
  proof (cases "n < 10")
    case True
    then show ?thesis by (subst formatDecimal.simps) (simp add: digit_not_minus)
  next
    case False
    with 1 show ?thesis
      by (subst formatDecimal.simps) (simp add: formatDecimal_nonempty)
  qed
qed

lemma formatDecimal_inj: "formatDecimal n = formatDecimal m \<Longrightarrow> n = m"
proof (induction n arbitrary: m rule: formatDecimal.induct)
  case (1 n)
  show ?case
  proof (cases "n < 10")
    case n: True
    show ?thesis
    proof (cases "m < 10")
      case True
      with n 1(2) show ?thesis
        by (simp add: formatDecimal.simps [of n] formatDecimal.simps [of m] digit_inj)
    next
      case False
      with n 1(2) show ?thesis
        by (simp add: formatDecimal.simps [of n] formatDecimal.simps [of m]
            formatDecimal_nonempty formatDecimal_nonempty')
    qed
  next
    case n: False
    show ?thesis
    proof (cases "m < 10")
      case True
      with n 1(2) show ?thesis
        by (simp add: formatDecimal.simps [of n] formatDecimal.simps [of m]
            formatDecimal_nonempty formatDecimal_nonempty')
    next
      case False
      with n 1(2) have eq: "formatDecimal (n div 10) = formatDecimal (m div 10)"
        and dg: "digit (n mod 10) = digit (m mod 10)"
        by (simp_all add: formatDecimal.simps [of n] formatDecimal.simps [of m])
      from 1(1) [OF n eq] have "n div 10 = m div 10" .
      moreover from dg have "n mod 10 = m mod 10" by (simp add: digit_inj)
      ultimately show ?thesis by (metis div_mult_mod_eq)
    qed
  qed
qed

lemma Itoa_inj: "Itoa i = Itoa j \<Longrightarrow> i = j"
proof -
  assume eq: "Itoa i = Itoa j"
  have neg: "\<And>a b. CHR ''-'' # formatDecimal a \<noteq> formatDecimal b"
    using formatDecimal_hd by (metis list.sel(1))
  show ?thesis
  proof (cases "i < 0")
    case i: True
    show ?thesis
    proof (cases "j < 0")
      case True
      with i eq have "nat (- i) = nat (- j)" by (simp add: Itoa_def formatDecimal_inj)
      with i True show ?thesis by simp
    next
      case False
      with i eq neg show ?thesis by (simp add: Itoa_def)
    qed
  next
    case i: False
    show ?thesis
    proof (cases "j < 0")
      case True
      with i eq neg [of "nat (- j)" "nat i"] show ?thesis by (simp add: Itoa_def)
    next
      case False
      with i eq have "nat i = nat j" by (simp add: Itoa_def formatDecimal_inj)
      with i False show ?thesis by simp
    qed
  qed
qed

lemma distinct_map_inj: "inj f \<Longrightarrow> distinct (map f xs) = distinct xs"
  by (simp add: distinct_map inj_on_def inj_def)

lemma main_event_calls:
  "main_event rnd u w = Ok w' \<Longrightarrow>
     map (\<lambda>c. snd (snd c)) (calls w') =
       map (\<lambda>c. snd (snd c)) (calls w) @ map (\<lambda>i. ''DL-'' @ Itoa (rnd i)) [draws w..<draws w']
     \<and> draws w \<le> draws w'"
  by (auto simp: main_event_def enqueueDownload_def Let_def split: if_splits outcome.splits)

lemma main_loop_calls:
  "main_loop rnd us w = Ok w' \<Longrightarrow>
     map (\<lambda>c. snd (snd c)) (calls w') =
       map (\<lambda>c. snd (snd c)) (calls w) @ map (\<lambda>i. ''DL-'' @ Itoa (rnd i)) [draws w..<draws w']
     \<and> draws w \<le> draws w'"
proof (induction us arbitrary: w)
  case Nil
  then show ?case by simp
next
  case (Cons u us)
  from Cons.prems obtain w1 where e: "main_event rnd u w = Ok w1" and l: "main_loop rnd us w1 = Ok w'"
    by (auto split: outcome.splits)
  note a = main_event_calls [OF e] and b = Cons.IH [OF l]
  have "[draws w..<draws w'] = [draws w..<draws w1] @ [draws w1..<draws w']"
    using a b by (metis le_Suc_ex upt_add_eq_append)
  with a b show ?case by simp
qed

text \<open>
  C4, as amended. The jobs the main loop creates are named \<open>DL-\<close> followed by the
  decimal digits of the numbers drawn, in the order of the draws; two jobs have the same
  \<open>targetPath\<close> exactly when the same number was drawn for both. So the names are
  pairwise distinct if and only if the numbers drawn are, which \<open>rand.Int()\<close> does not
  promise.
\<close>

theorem targetPath_distinct_iff:
  assumes "main_loop rnd us init_world = Ok w"
  shows "map (\<lambda>c. snd (snd c)) (calls w) = map (\<lambda>i. ''DL-'' @ Itoa (rnd i)) [0..<draws w]
    \<and> (distinct (map (\<lambda>c. snd (snd c)) (calls w)) \<longleftrightarrow> distinct (map rnd [0..<draws w]))"
proof -
  have m: "map (\<lambda>c. snd (snd c)) (calls w) = map (\<lambda>i. ''DL-'' @ Itoa (rnd i)) [0..<draws w]"
    using main_loop_calls [OF assms] by (simp add: init_world_def)
  have "inj (\<lambda>r. ''DL-'' @ Itoa r)"
    by (rule injI) (simp add: Itoa_inj)
  then have "distinct (map (\<lambda>r. ''DL-'' @ Itoa r) (map rnd [0..<draws w]))
      \<longleftrightarrow> distinct (map rnd [0..<draws w])"
    by (rule distinct_map_inj)
  moreover have "map (\<lambda>r. ''DL-'' @ Itoa r) (map rnd [0..<draws w])
      = map (\<lambda>i. ''DL-'' @ Itoa (rnd i)) [0..<draws w]"
    by (simp add: comp_def)
  ultimately show ?thesis using m by metis
qed

theorem targetPath_distinct_iff_witness:
  "\<exists>w. main_loop (\<lambda>i. int i)
          [''https://media.example/range/0-1'', ''https://media.example/range/0-2''] init_world = Ok w
       \<and> map (\<lambda>c. snd (snd c)) (calls w) = [''DL-0'', ''DL-1'']
       \<and> distinct (map (\<lambda>c. snd (snd c)) (calls w))"
proof -
  let ?x = "main_loop (\<lambda>i. int i)
          [''https://media.example/range/0-1'', ''https://media.example/range/0-2''] init_world"
  have "case ?x of Ok w \<Rightarrow> draws w = 2 | Fatal err \<Rightarrow> False"
    by code_simp
  then obtain w where e: "?x = Ok w" and d: "draws w = 2"
    by (cases ?x) auto
  have n: "map (\<lambda>i. ''DL-'' @ Itoa (int i)) [0..<2] = [''DL-0'', ''DL-1'']"
    by code_simp
  have i: "distinct (map int [0..<2])"
    by code_simp
  from targetPath_distinct_iff [OF e] d n i e show ?thesis by auto
qed

text \<open>
  The claim as written (distinct for every possible sequence of identifiers) fails when
  a number is drawn twice: both jobs are to write the file \<open>DL-7\<close>.
\<close>

theorem targetPath_collision_counterexample:
  "(case main_loop (\<lambda>i. 7) [''https://media.example/range/0-1'', ''https://media.example/range/0-2'']
           init_world of
      Ok w \<Rightarrow> calls w
    | Fatal err \<Rightarrow> [])
   = [(Task 0 1, ''https://media.example'', ''DL-7''), (Task 2 3, ''https://media.example'', ''DL-7'')]"
  by code_simp

section \<open>What \<open>enqueueDownload\<close> returns\<close>

lemma main_event_log: "main_event rnd u w = Ok w' \<Longrightarrow> log w' = log w"
  by (auto simp: main_event_def enqueueDownload_def Let_def split: if_splits outcome.splits)

text \<open>
  C10. \<open>enqueueDownload\<close> returns \<open>nil\<close> for every state and every argument. The main
  loop therefore never takes the branch that logs its error: whatever events it
  processes, it leaves the log as it was. A goroutine whose \<open>QueueTask\<close> is rejected
  changes nothing: the task is in no queue and the error is in no log.
\<close>

theorem enqueueDownload_returns_nil:
  assumes "main_loop rnd us w = Ok w'"
  shows "fst (enqueueDownload fromURL toPath w) = None
    \<and> log w' = log w
    \<and> goroutine_body (Some err) g w = w"
proof -
  from assms have "log w' = log w"
  proof (induction us arbitrary: w)
    case Nil
    then show ?case by simp
  next
    case (Cons u us)
    then show ?case by (auto split: outcome.splits dest: main_event_log)
  qed
  then show ?thesis
    by (simp add: enqueueDownload_def Let_def goroutine_body_def QueueTask_def)
qed

theorem enqueueDownload_returns_nil_witness:
  "\<exists>w'. main_loop (\<lambda>i. int i)
           [''https://media.example/range/0-1'', ''https://media.example/video/manifest.mpd'']
           init_world = Ok w'
       \<and> fst (enqueueDownload ''https://media.example'' ''DL-0'' init_world) = None
       \<and> log w' = log init_world
       \<and> goroutine_body (Some (SysError ''queue has been released''))
            (Goroutine ''https://media.example'' ''DL-0'' (Task 0 1)) init_world = init_world"
proof -
  let ?x = "main_loop (\<lambda>i. int i)
           [''https://media.example/range/0-1'', ''https://media.example/video/manifest.mpd'']
           init_world"
  have "case ?x of Ok w \<Rightarrow> True | Fatal err \<Rightarrow> False"
    by code_simp
  then obtain w' where e: "?x = Ok w'"
    by (cases ?x) auto
  from enqueueDownload_returns_nil [OF e] e show ?thesis by blast
qed

section \<open>Each task reads the variables of its own call\<close>

lemma closures_wf_init: "closures_wf init_world"
  by (simp add: closures_wf_def init_world_def)

lemma set_remove_nth: "set (take i xs @ drop (Suc i) xs) \<subseteq> set xs"
  by (auto dest: in_set_takeD in_set_dropD)

lemma closures_wf_enqueue:
  assumes "closures_wf w"
  shows "closures_wf (snd (enqueueDownload fromURL toPath (w\<lparr>draws := n\<rparr>)))"
proof -
  let ?w' = "snd (enqueueDownload fromURL toPath (w\<lparr>draws := n\<rparr>))"
  let ?t = "Task (length (heap w)) (length (heap w) + 1)"
  have h: "heap ?w' = heap w @ [fromURL, toPath]"
    and c: "calls ?w' = calls w @ [(?t, fromURL, toPath)]"
    and g: "goroutines ?w' = goroutines w @ [Goroutine fromURL toPath ?t]"
    and q: "queue ?w' = queue w" and x: "executed ?w' = executed w"
    by (simp_all add: enqueueDownload_def Let_def)
  from assms have len: "length (heap w) = 2 * length (calls w)"
    and cells: "\<And>k. k < length (calls w) \<Longrightarrow>
           calls w ! k = (Task (2 * k) (2 * k + 1), heap w ! (2 * k), heap w ! (2 * k + 1))"
    and gs: "body_task ` set (goroutines w) \<subseteq> fst ` set (calls w)"
    and qs: "set (queue w) \<subseteq> fst ` set (calls w)"
    and xs: "set (executed w) \<subseteq> set (calls w)"
    by (simp_all add: closures_wf_def)
  have "\<forall>k < length (calls ?w').
           calls ?w' ! k = (Task (2 * k) (2 * k + 1), heap ?w' ! (2 * k), heap ?w' ! (2 * k + 1))"
  proof (intro allI impI)
    fix k assume "k < length (calls ?w')"
    then have "k < length (calls w) \<or> k = length (calls w)"
      by (simp add: c less_Suc_eq)
    then show "calls ?w' ! k = (Task (2 * k) (2 * k + 1), heap ?w' ! (2 * k), heap ?w' ! (2 * k + 1))"
    proof (elim disjE)
      assume 1: "k < length (calls w)"
      with len have "2 * k < length (heap w)" "2 * k + 1 < length (heap w)" by auto
      with 1 cells [OF 1] show ?thesis by (simp add: h c nth_append)
    next
      assume "k = length (calls w)"
      with len show ?thesis by (simp add: h c nth_append)
    qed
  qed
  moreover have "length (heap ?w') = 2 * length (calls ?w')"
    using len by (simp add: h c)
  moreover have "body_task ` set (goroutines ?w') \<subseteq> fst ` set (calls ?w')"
    using gs by (auto simp: g c)
  moreover have "set (queue ?w') \<subseteq> fst ` set (calls ?w')"
    using qs by (auto simp: q c)
  moreover have "set (executed ?w') \<subseteq> set (calls ?w')"
    using xs by (auto simp: x c)
  ultimately show ?thesis
    unfolding closures_wf_def by blast
qed

lemma closures_wf_main_event:
  assumes "closures_wf w" and "main_event rnd u w = Ok w'"
  shows "closures_wf w'"
proof (cases "isAudioURL u")
  case False
  with assms show ?thesis by (simp add: main_event_def)
next
  case True
  with assms(2) obtain d where
    "w' = snd (enqueueDownload d (''DL-'' @ Itoa (rnd (draws w))) (w\<lparr>draws := Suc (draws w)\<rparr>))"
    by (auto simp: main_event_def enqueueDownload_def Let_def split: outcome.splits)
  with closures_wf_enqueue [OF assms(1)] show ?thesis by simp
qed

lemma closures_wf_goroutine:
  assumes "closures_wf w" and "i < length (goroutines w)"
  shows "closures_wf (goroutine_body verdict (goroutines w ! i)
           (w\<lparr>goroutines := take i (goroutines w) @ drop (Suc i) (goroutines w)\<rparr>))"
proof -
  let ?gs = "take i (goroutines w) @ drop (Suc i) (goroutines w)"
  let ?t = "body_task (goroutines w ! i)"
  let ?w' = "goroutine_body verdict (goroutines w ! i) (w\<lparr>goroutines := ?gs\<rparr>)"
  from assms(2) have "goroutines w ! i \<in> set (goroutines w)" by simp
  with assms(1) have t: "?t \<in> fst ` set (calls w)"
    by (auto simp: closures_wf_def)
  have "set ?gs \<subseteq> set (goroutines w)"
    by (rule set_remove_nth)
  with assms(1) have gs: "body_task ` set ?gs \<subseteq> fst ` set (calls w)"
    unfolding closures_wf_def by blast
  have same: "heap ?w' = heap w" "calls ?w' = calls w" "executed ?w' = executed w"
    "goroutines ?w' = ?gs"
    by (cases verdict; simp add: goroutine_body_def QueueTask_def)+
  from assms(1) have qs: "set (queue w) \<subseteq> fst ` set (calls w)"
    by (simp add: closures_wf_def)
  have "set (queue ?w') \<subseteq> insert ?t (set (queue w))"
    by (cases verdict) (auto simp: goroutine_body_def QueueTask_def)
  with t qs have "set (queue ?w') \<subseteq> fst ` set (calls w)"
    by blast
  with assms(1) gs show ?thesis
    unfolding closures_wf_def same by simp
qed

lemma download_keeps:
  "heap (snd (download e u p w)) = heap w"
  "calls (snd (download e u p w)) = calls w"
  "goroutines (snd (download e u p w)) = goroutines w"
  "queue (snd (download e u p w)) = queue w"
  "executed (snd (download e u p w)) = executed w"
  by (simp_all add: download_def Let_def split: option.splits sum.splits prod.splits)

lemma closures_wf_run:
  assumes "closures_wf w" and "j < length (queue w)"
  shows "closures_wf (run_task e (queue w ! j)
           (w\<lparr>queue := take j (queue w) @ drop (Suc j) (queue w)\<rparr>))"
proof -
  let ?t = "queue w ! j"
  let ?w1 = "w\<lparr>queue := take j (queue w) @ drop (Suc j) (queue w)\<rparr>"
  from assms have "?t \<in> fst ` set (calls w)"
    by (auto simp: closures_wf_def)
  then obtain k where k: "k < length (calls w)" and tk: "fst (calls w ! k) = ?t"
    by (auto simp: in_set_conv_nth)
  from assms(1) k have ck: "calls w ! k = (Task (2 * k) (2 * k + 1), heap w ! (2 * k), heap w ! (2 * k + 1))"
    and len: "length (heap w) = 2 * length (calls w)"
    by (simp_all add: closures_wf_def)
  from ck tk have t: "?t = Task (2 * k) (2 * k + 1)" by simp
  from k ck have mem: "(?t, heap w ! cap_fromURL ?t, heap w ! cap_toPath ?t) \<in> set (calls w)"
    unfolding t by (metis nth_mem task.sel)
  from k len have inb: "cap_fromURL ?t < length (heap w) \<and> cap_toPath ?t < length (heap w)"
    unfolding t by simp
  let ?w2 = "?w1\<lparr>executed := executed w @ [(?t, heap w ! cap_fromURL ?t, heap w ! cap_toPath ?t)]\<rparr>"
  let ?d = "download e (heap w ! cap_fromURL ?t) (heap w ! cap_toPath ?t) ?w2"
  have r: "run_task e ?t ?w1 = (snd ?d)\<lparr>task_results := task_results (snd ?d) @ [fst ?d]\<rparr>"
    using inb by (simp add: run_task_def split: prod.splits)
  have "set (take j (queue w) @ drop (Suc j) (queue w)) \<subseteq> set (queue w)"
    by (rule set_remove_nth)
  with assms(1) mem show ?thesis
    unfolding r by (auto simp: closures_wf_def download_keeps)
qed

lemma closures_wf_step:
  assumes "closures_wf w" and "step e rnd a w = Ok w'"
  shows "closures_wf w'"
proof (cases a)
  case (Event u)
  with assms show ?thesis by (auto intro: closures_wf_main_event)
next
  case (Submit i verdict)
  with assms show ?thesis by (auto split: if_splits intro: closures_wf_goroutine)
next
  case (Run j)
  with assms show ?thesis by (auto split: if_splits intro: closures_wf_run)
qed

lemma closures_wf_exec:
  "closures_wf w \<Longrightarrow> exec e rnd sched w = Ok w' \<Longrightarrow> closures_wf w'"
proof (induction sched arbitrary: w)
  case Nil
  then show ?case by simp
next
  case (Cons a sched)
  then show ?case by (auto split: outcome.splits dest: closures_wf_step)
qed

text \<open>
  C7. Whatever the order in which the main loop, the goroutines and the workers of the
  pool take their steps, and whatever the pool answers: every \<open>download\<close> a task runs
  is run with the \<open>fromURL\<close> and the \<open>toPath\<close> of the call of \<open>enqueueDownload\<close> that
  built this task. No two calls share a closure or a captured variable: the \<open>k\<close>-th
  call owns the cells \<open>2 * k\<close> and \<open>2 * k + 1\<close>, and these hold its two arguments in
  every state the program reaches (nothing ever assigns to them).
\<close>

theorem task_runs_with_its_own_arguments:
  assumes "exec e rnd sched init_world = Ok w"
  shows "set (executed w) \<subseteq> set (calls w)
    \<and> distinct (map fst (calls w))
    \<and> (\<forall>k < length (calls w).
          calls w ! k = (Task (2 * k) (2 * k + 1), heap w ! (2 * k), heap w ! (2 * k + 1)))"
proof -
  from closures_wf_exec [OF closures_wf_init assms] have wf: "closures_wf w" .
  then have cells: "\<forall>k < length (calls w).
          calls w ! k = (Task (2 * k) (2 * k + 1), heap w ! (2 * k), heap w ! (2 * k + 1))"
    and ex: "set (executed w) \<subseteq> set (calls w)"
    by (simp_all add: closures_wf_def)
  have "distinct (map fst (calls w))"
  proof (rule distinct_conv_nth [THEN iffD2], intro allI impI)
    fix i j
    assume "i < length (map fst (calls w))" "j < length (map fst (calls w))" "i \<noteq> j"
    with cells show "map fst (calls w) ! i \<noteq> map fst (calls w) ! j" by simp
  qed
  with cells ex show ?thesis by blast
qed

text \<open>
  Two events, the goroutines and the tasks run in the reverse order: each download has
  the URL and the file name of its own call.
\<close>

theorem task_runs_with_its_own_arguments_witness:
  "\<exists>w. exec \<lparr>os_Create = (\<lambda>p. None),
              http_Get = (\<lambda>u. Inr \<lparr>StatusCode = 200, Body = \<lparr>chunks = [u], final = None\<rparr>\<rparr>),
              file_Write = (\<lambda>f buf. (length buf, None))\<rparr>
            (\<lambda>i. int i)
            [Event ''https://a.example/range/0-1'', Event ''https://b.example/range/0-2'',
             Submit 1 None, Submit 0 None, Run 0, Run 0]
            init_world = Ok w
       \<and> executed w = [(Task 2 3, ''https://b.example'', ''DL-1''), (Task 0 1, ''https://a.example'', ''DL-0'')]
       \<and> set (executed w) \<subseteq> set (calls w)"
proof -
  let ?x = "exec \<lparr>os_Create = (\<lambda>p. None),
              http_Get = (\<lambda>u. Inr \<lparr>StatusCode = 200, Body = \<lparr>chunks = [u], final = None\<rparr>\<rparr>),
              file_Write = (\<lambda>f buf. (length buf, None))\<rparr>
            (\<lambda>i. int i)
            [Event ''https://a.example/range/0-1'', Event ''https://b.example/range/0-2'',
             Submit 1 None, Submit 0 None, Run 0, Run 0]
            init_world"
  have "case ?x of
          Ok w \<Rightarrow> executed w = [(Task 2 3, ''https://b.example'', ''DL-1''), (Task 0 1, ''https://a.example'', ''DL-0'')]
        | Fatal err \<Rightarrow> False"
    by code_simp
  then obtain w where e: "?x = Ok w"
    and x: "executed w = [(Task 2 3, ''https://b.example'', ''DL-1''), (Task 0 1, ''https://a.example'', ''DL-0'')]"
    by (cases ?x) auto
  from task_runs_with_its_own_arguments [OF e] e x show ?thesis by blast
qed

section \<open>The downloader\<close>

lemma copyBuffer_full:
  "(\<And>f buf. wr f buf = (length buf, None)) \<Longrightarrow>
   copyBuffer wr cs er content n = (content @ concat cs, n + length (concat cs), er)"
  by (induction cs arbitrary: content n) auto

text \<open>
  C8. When the file is created, the response arrives, its body is read to the end
  without an error and every write is complete, \<open>download\<close> returns \<open>nil\<close>, the file at
  \<open>toPath\<close> holds exactly the bytes of the body, in order, and the last line logged
  reports their number. (The function returns an error only: the number of bytes is
  reported in the log line \<open>Done, got B bytes\<close>.) No other task writes to the same path
  meanwhile: this is one run of \<open>download\<close>.
\<close>

theorem download_roundtrip:
  assumes "os_Create e toPath = None"
    and "http_Get e fromUrl = Inr resp"
    and "final (Body resp) = None"
    and "\<forall>f buf. file_Write e f buf = (length buf, None)"
  shows "fst (download e fromUrl toPath w) = None
    \<and> fs (snd (download e fromUrl toPath w)) toPath = Some (concat (chunks (Body resp)))
    \<and> log (snd (download e fromUrl toPath w)) =
        log w @ [Msg (''Downloading '' @ fromUrl),
                 Msg (''Done, got '' @ Itoa (int (length (concat (chunks (Body resp))))) @ '' bytes'')]"
proof -
  have c: "copyBuffer (file_Write e) (chunks (Body resp)) (final (Body resp)) [] 0
      = (concat (chunks (Body resp)), length (concat (chunks (Body resp))), None)"
    using assms(3,4) by (simp add: copyBuffer_full)
  show ?thesis
    using assms(1,2) by (simp add: download_def Let_def c)
qed

theorem download_roundtrip_witness:
  "fst (download
          \<lparr>os_Create = (\<lambda>p. None),
           http_Get = (\<lambda>u. Inr \<lparr>StatusCode = 200,
                                 Body = \<lparr>chunks = [''hello '', [], ''world''], final = None\<rparr>\<rparr>),
           file_Write = (\<lambda>f buf. (length buf, None))\<rparr>
          ''https://media.example?id=5'' ''DL-7'' init_world) = None
   \<and> fs (snd (download
          \<lparr>os_Create = (\<lambda>p. None),
           http_Get = (\<lambda>u. Inr \<lparr>StatusCode = 200,
                                 Body = \<lparr>chunks = [''hello '', [], ''world''], final = None\<rparr>\<rparr>),
           file_Write = (\<lambda>f buf. (length buf, None))\<rparr>
          ''https://media.example?id=5'' ''DL-7'' init_world)) ''DL-7'' = Some ''hello world''
   \<and> log (snd (download
          \<lparr>os_Create = (\<lambda>p. None),
           http_Get = (\<lambda>u. Inr \<lparr>StatusCode = 200,
                                 Body = \<lparr>chunks = [''hello '', [], ''world''], final = None\<rparr>\<rparr>),
           file_Write = (\<lambda>f buf. (length buf, None))\<rparr>
          ''https://media.example?id=5'' ''DL-7'' init_world))
       = [Msg ''Downloading https://media.example?id=5'', Msg ''Done, got 11 bytes'']"
proof -
  let ?resp = "\<lparr>StatusCode = 200, Body = \<lparr>chunks = [''hello '', [], ''world''], final = None\<rparr>\<rparr>"
  let ?e = "\<lparr>os_Create = (\<lambda>p. None), http_Get = (\<lambda>u. Inr ?resp),
             file_Write = (\<lambda>f buf. (length buf, None))\<rparr>"
  have n: "Itoa 11 = ''11''"
    by code_simp
  have "os_Create ?e ''DL-7'' = None" "http_Get ?e ''https://media.example?id=5'' = Inr ?resp"
    "final (Body ?resp) = None" "\<forall>f buf. file_Write ?e f buf = (length buf, None)"
    by simp_all
  from download_roundtrip [OF this, of init_world] n show ?thesis
    by (simp add: init_world_def)
qed

text \<open>
  C5, as amended. When the file cannot be created, when \<open>http.Get\<close> returns an error,
  or when the copy of the body to the file returns an error (a network error while
  reading, a failed or short write), \<open>download\<close> returns that error as the outcome of
  the job; it does not put the job back into the queue, and a worker's step never ends
  the process. (A response with a server error status is no failure of \<open>http.Get\<close>:
  see the counterexample.)
\<close>

theorem download_failure_is_returned:
  assumes "os_Create e toPath = Some err
     \<or> (os_Create e toPath = None \<and> http_Get e fromUrl = Inl err)
     \<or> (os_Create e toPath = None
         \<and> (\<exists>resp. http_Get e fromUrl = Inr resp
              \<and> snd (snd (copyBuffer (file_Write e) (chunks (Body resp)) (final (Body resp)) [] 0))
                  = Some err))"
  shows "fst (download e fromUrl toPath w) = Some err
    \<and> queue (snd (download e fromUrl toPath w)) = queue w
    \<and> (\<exists>w'. step e rnd (Run j) w = Ok w')"
  using assms
  by (auto simp: download_def Let_def split: prod.splits option.splits)

text \<open>
  Three failures: the connection is refused; the body breaks off after its first chunk;
  the disk takes two bytes of the first chunk.
\<close>

theorem download_failure_is_returned_witness:
  "fst (download
          \<lparr>os_Create = (\<lambda>p. None),
           http_Get = (\<lambda>u. Inl (SysError ''connection refused'')),
           file_Write = (\<lambda>f buf. (length buf, None))\<rparr>
          ''https://media.example?id=5'' ''DL-7'' init_world)
     = Some (SysError ''connection refused'')
   \<and> fst (download
          \<lparr>os_Create = (\<lambda>p. None),
           http_Get = (\<lambda>u. Inr \<lparr>StatusCode = 200,
                                 Body = \<lparr>chunks = [''hello ''],
                                         final = Some (SysError ''unexpected EOF'')\<rparr>\<rparr>),
           file_Write = (\<lambda>f buf. (length buf, None))\<rparr>
          ''https://media.example?id=5'' ''DL-7'' init_world)
     = Some (SysError ''unexpected EOF'')
   \<and> fst (download
          \<lparr>os_Create = (\<lambda>p. None),
           http_Get = (\<lambda>u. Inr \<lparr>StatusCode = 200,
                                 Body = \<lparr>chunks = [''hello '', ''world''], final = None\<rparr>\<rparr>),
           file_Write = (\<lambda>f buf. (2, None))\<rparr>
          ''https://media.example?id=5'' ''DL-7'' init_world)
     = Some ErrShortWrite"
proof -
  let ?e1 = "\<lparr>os_Create = (\<lambda>p. None),
           http_Get = (\<lambda>u. Inl (SysError ''connection refused'')),
           file_Write = (\<lambda>f buf. (length buf, None))\<rparr>"
  let ?e2 = "\<lparr>os_Create = (\<lambda>p. None),
           http_Get = (\<lambda>u. Inr \<lparr>StatusCode = 200,
                                 Body = \<lparr>chunks = [''hello ''],
                                         final = Some (SysError ''unexpected EOF'')\<rparr>\<rparr>),
           file_Write = (\<lambda>f buf. (length buf, None))\<rparr>"
  let ?e3 = "\<lparr>os_Create = (\<lambda>p. None),
           http_Get = (\<lambda>u. Inr \<lparr>StatusCode = 200,
                                 Body = \<lparr>chunks = [''hello '', ''world''], final = None\<rparr>\<rparr>),
           file_Write = (\<lambda>f buf. (2, None))\<rparr>"
  have 1: "fst (download ?e1 ''https://media.example?id=5'' ''DL-7'' init_world)
     = Some (SysError ''connection refused'')"
    using download_failure_is_returned
      [of ?e1 "''DL-7''" "SysError ''connection refused''" "''https://media.example?id=5''"]
    by simp
  have 2: "fst (download ?e2 ''https://media.example?id=5'' ''DL-7'' init_world)
     = Some (SysError ''unexpected EOF'')"
    using download_failure_is_returned
      [of ?e2 "''DL-7''" "SysError ''unexpected EOF''" "''https://media.example?id=5''"]
    by simp
  have 3: "fst (download ?e3 ''https://media.example?id=5'' ''DL-7'' init_world)
     = Some ErrShortWrite"
    using download_failure_is_returned
      [of ?e3 "''DL-7''" "ErrShortWrite" "''https://media.example?id=5''"]
    by simp
  from 1 2 3 show ?thesis by blast
qed

text \<open>
  The claim as written fails for a server error status: \<open>http.Get\<close> returns the
  response, \<open>download\<close> never reads its status, writes the body of the error page to the
  file and returns \<open>nil\<close>. And in the older variant a failed request ends the process.
\<close>

theorem download_server_error_counterexample:
  "fst (download
          \<lparr>os_Create = (\<lambda>p. None),
           http_Get = (\<lambda>u. Inr \<lparr>StatusCode = 500,
                                 Body = \<lparr>chunks = [''Internal Server Error''], final = None\<rparr>\<rparr>),
           file_Write = (\<lambda>f buf. (length buf, None))\<rparr>
          ''https://media.example?id=5'' ''DL-7'' init_world) = None
   \<and> fs (snd (download
          \<lparr>os_Create = (\<lambda>p. None),
           http_Get = (\<lambda>u. Inr \<lparr>StatusCode = 500,
                                 Body = \<lparr>chunks = [''Internal Server Error''], final = None\<rparr>\<rparr>),
           file_Write = (\<lambda>f buf. (length buf, None))\<rparr>
          ''https://media.example?id=5'' ''DL-7'' init_world)) ''DL-7''
       = Some ''Internal Server Error''
   \<and> downloadAudio
          \<lparr>os_Create = (\<lambda>p. None),
           http_Get = (\<lambda>u. Inl (SysError ''connection refused'')),
           file_Write = (\<lambda>f buf. (length buf, None))\<rparr>
          ''https://media.example/range/0-5?id=5'' ''DL-7'' init_world
       = Fatal (SysError ''connection refused'')"
proof -
  have "\<not> isl (Parse ''https://media.example/range/0-5?id=5'')"
    by code_simp
  then obtain u where "Parse ''https://media.example/range/0-5?id=5'' = Inr u"
    by (cases "Parse ''https://media.example/range/0-5?id=5''") auto
  then show ?thesis
    by (simp add: download_def downloadAudio_def Let_def)
qed

section \<open>The session connector\<close>

lemma Retry_eventually:
  "(\<And>i. i < k \<Longrightarrow> isl (connectToChromeDebugger (attempt (n + i)))) \<Longrightarrow>
   connectToChromeDebugger (attempt (n + k)) = Inr c \<Longrightarrow>
   Retry attempt d n s =
     Some (s\<lparr>chrome := Some c,
             session_log := session_log s @ map (\<lambda>i. projl (connectToChromeDebugger (attempt i))) [n..<n + k],
             slept := slept s @ replicate k d\<rparr>)"
proof (induction k arbitrary: n s)
  case 0
  then show ?case
    by (subst Retry.simps) (simp add: retryFunc_def)
next
  case (Suc k)
  from Suc.prems(1) [of 0] obtain err where f: "connectToChromeDebugger (attempt n) = Inl err"
    by (cases "connectToChromeDebugger (attempt n)") auto
  have later: "\<And>i. i < k \<Longrightarrow> isl (connectToChromeDebugger (attempt (Suc n + i)))"
    using Suc.prems(1) [of "Suc i" for i] by simp
  have succ: "connectToChromeDebugger (attempt (Suc n + k)) = Inr c"
    using Suc.prems(2) by simp
  note ih = Suc.IH [OF later succ]
  show ?case
    by (subst Retry.simps)
      (simp add: retryFunc_def f ih upt_conv_Cons replicate_app_Cons_same del: upt_Suc)
qed

text \<open>
  C6. For every \<open>k\<close>: when the first \<open>k\<close> attempts to connect fail and the next one
  succeeds, the connector returns (the unbounded loop ends), with the client of the
  successful attempt; it has logged the \<open>k\<close> errors and slept \<open>k\<close> times, five seconds
  each time. Nothing else of the failed attempts remains.
\<close>

theorem connect_after_k_failures:
  assumes "\<forall>i<k. isl (connectToChromeDebugger (attempt i))"
    and "connectToChromeDebugger (attempt k) = Inr c"
  shows "connect attempt =
     Some \<lparr>chrome = Some c,
           session_log = map (\<lambda>i. projl (connectToChromeDebugger (attempt i))) [0..<k],
           slept = replicate k (5 * Second)\<rparr>"
  using Retry_eventually [of k attempt 0 c "5 * Second"] assms
  by (simp add: connect_def)

text \<open>The endpoint refuses three attempts and answers the fourth.\<close>

theorem connect_after_k_failures_witness:
  "connect (\<lambda>i. if i < 3
              then \<lparr>devt_Get = Inl (SysError ''connection refused''),
                    devt_Create = Inl (SysError ''connection refused''),
                    rpcc_DialContext = (\<lambda>url. Inl (SysError ''connection refused''))\<rparr>
              else \<lparr>devt_Get = Inr (Target ''ws://127.0.0.1:9222/devtools/page/1''),
                    devt_Create = Inl (SysError ''not called''),
                    rpcc_DialContext = (\<lambda>url. Inr (Conn url))\<rparr>)
   = Some \<lparr>chrome = Some (NewClient (Conn ''ws://127.0.0.1:9222/devtools/page/1'')),
           session_log = [SysError ''connection refused'', SysError ''connection refused'',
                          SysError ''connection refused''],
           slept = [5000000000, 5000000000, 5000000000]\<rparr>"
proof -
  let ?a = "\<lambda>i::nat. if i < 3
              then \<lparr>devt_Get = Inl (SysError ''connection refused''),
                    devt_Create = Inl (SysError ''connection refused''),
                    rpcc_DialContext = (\<lambda>url. Inl (SysError ''connection refused''))\<rparr>
              else \<lparr>devt_Get = Inr (Target ''ws://127.0.0.1:9222/devtools/page/1''),
                    devt_Create = Inl (SysError ''not called''),
                    rpcc_DialContext = (\<lambda>url. Inr (Conn url))\<rparr>"
  have f: "\<forall>i<3. isl (connectToChromeDebugger (?a i))"
    by (simp add: connectToChromeDebugger_def)
  have s: "connectToChromeDebugger (?a 3)
      = Inr (NewClient (Conn ''ws://127.0.0.1:9222/devtools/page/1''))"
    by (simp add: connectToChromeDebugger_def)
  have l: "map (\<lambda>i. projl (connectToChromeDebugger (?a i))) [0..<3]
      = [SysError ''connection refused'', SysError ''connection refused'',
         SysError ''connection refused'']"
    by (simp add: connectToChromeDebugger_def upt_conv_Cons del: upt_Suc)
  have r: "replicate 3 (5 * Second) = [5000000000, 5000000000, 5000000000]"
    by (simp add: Second_def numeral_3_eq_3)
  from connect_after_k_failures [OF f s] l r show ?thesis by simp
qed

end
